theory Spec2Isabelle
  imports Main
begin

section \<open>Configuration (Config.py)\<close>

definition MEASUREMENT_INTERVAL :: nat where
  "MEASUREMENT_INTERVAL = 300"

definition MAX_OFFLINE_RECORDS :: nat where
  "MAX_OFFLINE_RECORDS = 1000"

definition INTERNET_TEST_URLS :: "string list" where
  "INTERNET_TEST_URLS = [''http://www.google.com'', ''http://www.cloudflare.com'']"

section \<open>Outcomes of the external calls\<close>

text \<open>
  What \<^verbatim>\<open>urlopen(Request(url), timeout=3)\<close> does for one URL: it returns a response,
  raises \<^verbatim>\<open>URLError\<close> (or a subclass), or raises an exception that is not a
  \<^verbatim>\<open>URLError\<close> (a read timeout after the connection was made, a reset connection,
  a malformed status line).
\<close>

datatype url_outcome = Opened | RaisedURLError | RaisedOther

text \<open>
  The exceptions that leave a function of \<^verbatim>\<open>MainController\<close>: the operator's
  \<^verbatim>\<open>KeyboardInterrupt\<close>, and any other exception that no handler catches.
\<close>

datatype exn = KeyboardInterrupt | UncaughtError

text \<open>A column value of the row that \<^verbatim>\<open>cur.fetchone()\<close> returns.\<close>

datatype sql_value = SqlNull | SqlInt int | SqlStr string

text \<open>
  The block \<^verbatim>\<open>connect; cursor; execute; fetchone; close\<close> of
  \<^verbatim>\<open>is_sensor_assigned\<close>: it raises some \<^verbatim>\<open>Exception\<close>, or \<^verbatim>\<open>fetchone\<close>
  returns \<^verbatim>\<open>None\<close> or the row \<^verbatim>\<open>(farm_id, is_active)\<close>.
\<close>

datatype db_outcome = DbRaised | Fetched "(sql_value \<times> sql_value) option"

datatype level = Info | Error

text \<open>
  The calls the controller makes on its collaborators, in the order it makes them.
  \<^verbatim>\<open>OnlineSave r b\<close> is the call \<^verbatim>\<open>self.online.save(r)\<close> that returned \<^verbatim>\<open>b\<close>.
\<close>

datatype 'r event =
    DbQuery string
  | Log level
  | ReadData
  | OnlineSave 'r bool
  | LoadAll
  | Clear
  | OfflineSave 'r
  | Sleep nat

text \<open>
  The state that lives across cycles: the content of the offline store, oldest reading
  first, and the calls made so far.
\<close>

record 'r state =
  buffer :: "'r list"
  trace :: "'r event list"

text \<open>
  What the outside world answers during one iteration of the loop of \<^verbatim>\<open>run\<close>:
  \<^item> \<open>probe_assign\<close>: the outcome of \<^verbatim>\<open>urlopen\<close> per URL during the call of
    \<^verbatim>\<open>has_internet\<close> inside \<^verbatim>\<open>is_sensor_assigned\<close>;
  \<^item> \<open>lookup\<close>: the outcome of the database block, per machine id;
  \<^item> \<open>read_data\<close>: the value of \<^verbatim>\<open>self.sensor.read_data()\<close>, \<open>None\<close> for a falsy one;
  \<^item> \<open>probe_route\<close>: the outcome of \<^verbatim>\<open>urlopen\<close> per URL during the call of
    \<^verbatim>\<open>has_internet\<close> in \<^verbatim>\<open>run\<close>;
  \<^item> \<open>save_data\<close>: the truth value of \<^verbatim>\<open>self.online.save(data)\<close>;
  \<^item> \<open>save_row\<close>: the truth value of \<^verbatim>\<open>self.online.save(row)\<close> for the row at a
    given position (from 0) of the loaded offline data;
  \<^item> \<open>stop\<close>: whether \<^verbatim>\<open>KeyboardInterrupt\<close> arrives during the \<^verbatim>\<open>time.sleep\<close> that
    ends the iteration.

  The classes \<^verbatim>\<open>SensorReader\<close>, \<^verbatim>\<open>OnlineLogger\<close> and \<^verbatim>\<open>OfflineLogger\<close> are not
  among the sources: \<^verbatim>\<open>run\<close> branches on the values their methods return, and those
  values are what the environment gives. \<^verbatim>\<open>run\<close> has no handler around these calls.
\<close>

record 'r cycle_env =
  probe_assign :: "string \<Rightarrow> url_outcome"
  lookup :: "string \<Rightarrow> db_outcome"
  read_data :: "'r option"
  probe_route :: "string \<Rightarrow> url_outcome"
  save_data :: bool
  save_row :: "nat \<Rightarrow> bool"
  stop :: bool

section \<open>The offline store\<close>

text \<open>
  Modelled from the spec: the class \<^verbatim>\<open>OfflineLogger\<close> (the spec's LocalBuffer) is not
  among the sources. \<open>append\<close> adds to the tail; if the store is at capacity it evicts
  from the head first, and it never rejects a reading.
\<close>

definition append_reading :: "nat \<Rightarrow> 'r list \<Rightarrow> 'r \<Rightarrow> 'r list" where
  "append_reading cap b r =
     (if cap \<le> length b then drop (Suc (length b) - cap) b else b) @ [r]"

text \<open>
  Modelled from the spec: \<^verbatim>\<open>OfflineLogger.load_all\<close> is not among the sources.
  \<open>loadAll\<close> returns the full ordered sequence without removing it.
\<close>

definition load_all :: "'r list \<Rightarrow> 'r list" where
  "load_all b = b"

text \<open>
  Modelled from the spec: \<^verbatim>\<open>OfflineLogger.clear\<close> is not among the sources.
  \<open>clear\<close> empties the store.
\<close>

definition clear :: "'r list \<Rightarrow> 'r list" where
  "clear b = []"

text \<open>The appends of a sequence of readings, one after the other.\<close>

fun append_all :: "nat \<Rightarrow> 'r list \<Rightarrow> 'r list \<Rightarrow> 'r list" where
  "append_all cap b [] = b"
| "append_all cap b (r # rs) = append_all cap (append_reading cap b r) rs"

section \<open>MainController\<close>

definition emit :: "'r event \<Rightarrow> 'r state \<Rightarrow> 'r state" where
  "emit e s = s\<lparr>trace := trace s @ [e]\<rparr>"

text \<open>
  \<^verbatim>\<open>has_internet\<close>: the loop over the test URLs. \<^verbatim>\<open>URLError\<close> is the only exception
  the handler names; any other one leaves the function.
\<close>

fun has_internet_from :: "(string \<Rightarrow> url_outcome) \<Rightarrow> string list \<Rightarrow> exn + bool" where
  "has_internet_from net [] = Inr False"
| "has_internet_from net (url # urls) =
     (case net url of
        Opened \<Rightarrow> Inr True
      | RaisedURLError \<Rightarrow> has_internet_from net urls
      | RaisedOther \<Rightarrow> Inl UncaughtError)"

definition has_internet :: "(string \<Rightarrow> url_outcome) \<Rightarrow> exn + bool" where
  "has_internet net = has_internet_from net INTERNET_TEST_URLS"

text \<open>
  The value returned after the query:
  \<^verbatim>\<open>result is not None and result[0] is not None and result[1]==1\<close>.
\<close>

fun row_assigned :: "(sql_value \<times> sql_value) option \<Rightarrow> bool" where
  "row_assigned None = False"
| "row_assigned (Some (farm_id, is_active)) = (farm_id \<noteq> SqlNull \<and> is_active = SqlInt 1)"

text \<open>
  \<^verbatim>\<open>is_sensor_assigned\<close>. Without internet it returns \<^verbatim>\<open>True\<close> and makes no query;
  \<^verbatim>\<open>except Exception\<close> turns every failure of the database block into \<^verbatim>\<open>False\<close>.
\<close>

definition is_sensor_assigned ::
  "'r cycle_env \<Rightarrow> string \<Rightarrow> 'r state \<Rightarrow> exn + (bool \<times> 'r state)" where
  "is_sensor_assigned env machine_id s =
     (case has_internet (probe_assign env) of
        Inl e \<Rightarrow> Inl e
      | Inr online \<Rightarrow>
          if \<not> online then Inr (True, s)
          else (case lookup env machine_id of
                  Fetched result \<Rightarrow> Inr (row_assigned result, emit (DbQuery machine_id) s)
                | DbRaised \<Rightarrow> Inr (False, emit (Log Error) (emit (DbQuery machine_id) s))))"

text \<open>The result of one iteration: the loop goes on, or an exception leaves it.\<close>

datatype 'r outcome = Continue "'r state" | Raised exn "'r state"

definition sleep :: "'r cycle_env \<Rightarrow> 'r state \<Rightarrow> 'r outcome" where
  "sleep env s =
     (if stop env then Raised KeyboardInterrupt (emit (Sleep MEASUREMENT_INTERVAL) s)
      else Continue (emit (Sleep MEASUREMENT_INTERVAL) s))"

text \<open>
  \<^verbatim>\<open>all(self.online.save(row) for _, row in offline_data.iterrows())\<close>: the rows are
  saved in order, and \<^verbatim>\<open>all\<close> stops at the first falsy result.
\<close>

fun save_all :: "(nat \<Rightarrow> bool) \<Rightarrow> nat \<Rightarrow> 'r list \<Rightarrow> 'r state \<Rightarrow> bool \<times> 'r state" where
  "save_all ok i [] s = (True, s)"
| "save_all ok i (row # rows) s =
     (if ok i then save_all ok (Suc i) rows (emit (OnlineSave row True) s)
      else (False, emit (OnlineSave row False) s))"

text \<open>
  The block under \<^verbatim>\<open># Sync offline data if exists\<close>: the whole offline store is
  loaded; when it is not empty every row is saved online, and the store is cleared only
  when \<^verbatim>\<open>all\<close> of the saves were truthy.
\<close>

definition sync_offline :: "'r cycle_env \<Rightarrow> 'r state \<Rightarrow> 'r state" where
  "sync_offline env s =
     (let offline_data = load_all (buffer s);
          s1 = emit LoadAll s
      in if offline_data \<noteq> [] then
           (case save_all (save_row env) 0 offline_data s1 of
              (ok, s2) \<Rightarrow>
                if ok then emit Clear (s2\<lparr>buffer := clear (buffer s2)\<rparr>) else s2)
         else s1)"

text \<open>
  The statement \<^verbatim>\<open>if self.has_internet(): ... else: self.offline.save(data)\<close> of
  \<^verbatim>\<open>run\<close>. The \<^verbatim>\<open>else\<close> belongs to the test of \<^verbatim>\<open>has_internet\<close>: a falsy
  \<^verbatim>\<open>self.online.save(data)\<close> has no branch of its own.
\<close>

definition route :: "'r cycle_env \<Rightarrow> 'r \<Rightarrow> 'r state \<Rightarrow> exn + 'r state" where
  "route env data s =
     (case has_internet (probe_route env) of
        Inl e \<Rightarrow> Inl e
      | Inr online \<Rightarrow>
          if online then
            (if save_data env then Inr (sync_offline env (emit (OnlineSave data True) s))
             else Inr (emit (OnlineSave data False) s))
          else
            Inr (emit (OfflineSave data)
                   (s\<lparr>buffer := append_reading MAX_OFFLINE_RECORDS (buffer s) data\<rparr>)))"

text \<open>The body of the \<^verbatim>\<open>while True\<close> loop of \<^verbatim>\<open>run\<close>.\<close>

definition cycle :: "string \<Rightarrow> 'r cycle_env \<Rightarrow> 'r state \<Rightarrow> 'r outcome" where
  "cycle machine_id env s =
     (case is_sensor_assigned env machine_id s of
        Inl e \<Rightarrow> Raised e s
      | Inr (assigned, s1) \<Rightarrow>
          if \<not> assigned then sleep env (emit (Log Info) s1)
          else
            (case read_data env of
               None \<Rightarrow> sleep env (emit ReadData s1)
             | Some data \<Rightarrow>
                 (case route env data (emit ReadData s1) of
                    Inl e \<Rightarrow> Raised e (emit ReadData s1)
                  | Inr s2 \<Rightarrow> sleep env s2)))"

text \<open>
  \<^verbatim>\<open>run\<close> on a finite prefix of iterations, one environment per iteration: the loop is
  still running when the prefix is used up, it stops when \<^verbatim>\<open>KeyboardInterrupt\<close>
  reaches the handler of \<^verbatim>\<open>run\<close>, and any other exception leaves \<^verbatim>\<open>run\<close>.
\<close>

datatype 'r run_result = Running "'r state" | Stopped "'r state" | Crashed exn "'r state"

fun run :: "string \<Rightarrow> 'r cycle_env list \<Rightarrow> 'r state \<Rightarrow> 'r run_result" where
  "run machine_id [] s = Running s"
| "run machine_id (env # envs) s =
     (case cycle machine_id env s of
        Continue s' \<Rightarrow> run machine_id envs s'
      | Raised KeyboardInterrupt s' \<Rightarrow> Stopped (emit (Log Info) s')
      | Raised UncaughtError s' \<Rightarrow> Crashed UncaughtError s')"

text \<open>The readings handed to \<^verbatim>\<open>self.online.save\<close>, in call order.\<close>

fun online_saves :: "'r event list \<Rightarrow> 'r list" where
  "online_saves [] = []"
| "online_saves (OnlineSave r b # es) = r # online_saves es"
| "online_saves (e # es) = online_saves es"

section \<open>Observations\<close>

text \<open>The state an iteration leaves behind, whether the loop goes on or not.\<close>

fun state_of :: "'r outcome \<Rightarrow> 'r state" where
  "state_of (Continue s) = s"
| "state_of (Raised e s) = s"

text \<open>The calls made during one iteration: what it adds to the trace.\<close>

definition cycle_events :: "string \<Rightarrow> 'r cycle_env \<Rightarrow> 'r state \<Rightarrow> 'r event list" where
  "cycle_events machine_id env s = drop (length (trace s)) (trace (state_of (cycle machine_id env s)))"


text \<open>
  An environment in which every URL of a probe has the same outcome, the lookup answers
  the same for every machine id, and no interrupt arrives; used for the concrete runs.
\<close>

definition env_of ::
  "url_outcome \<Rightarrow> db_outcome \<Rightarrow> 'r option \<Rightarrow> url_outcome \<Rightarrow> bool \<Rightarrow> (nat \<Rightarrow> bool) \<Rightarrow> 'r cycle_env" where
  "env_of p1 l r p2 sd sr =
     \<lparr>probe_assign = (\<lambda>_. p1), lookup = (\<lambda>_. l), read_data = r,
      probe_route = (\<lambda>_. p2), save_data = sd, save_row = sr, stop = False\<rparr>"


text \<open>
  An iteration without internet at either probe, in which the sensor returns the reading
  and no interrupt arrives.
\<close>

definition offline_cycle :: "'r cycle_env \<Rightarrow> 'r \<Rightarrow> bool" where
  "offline_cycle env r \<longleftrightarrow>
     has_internet (probe_assign env) = Inr False \<and> has_internet (probe_route env) = Inr False
     \<and> read_data env = Some r \<and> \<not> stop env"

section \<open>Auxiliary facts\<close>

lemma buffer_emit: "buffer (emit e s) = buffer s"
  by (simp add: emit_def)

lemma trace_emit: "trace (emit e s) = trace s @ [e]"
  by (simp add: emit_def)

lemma state_of_sleep: "state_of (sleep env s) = emit (Sleep MEASUREMENT_INTERVAL) s"
  by (simp add: sleep_def)

lemma save_all_buffer: "buffer (snd (save_all ok i rows s)) = buffer s"
  by (induction rows arbitrary: i s) (simp_all add: buffer_emit)

lemma save_all_ok:
  "(\<forall>k < length rows. ok (i + k)) \<Longrightarrow>
   save_all ok i rows s = (True, s\<lparr>trace := trace s @ map (\<lambda>r. OnlineSave r True) rows\<rparr>)"
proof (induction rows arbitrary: i s)
  case Nil
  then show ?case by simp
next
  case (Cons row rows)
  have "ok i" using Cons.prems by force
  moreover have "\<forall>k < length rows. ok (Suc i + k)" using Cons.prems by force
  ultimately show ?case using Cons.IH [of "Suc i"] by (simp add: emit_def)
qed

lemma save_all_fail:
  "j < length rows \<Longrightarrow> \<not> ok (i + j) \<Longrightarrow> (\<forall>k < j. ok (i + k)) \<Longrightarrow>
   save_all ok i rows s =
     (False, s\<lparr>trace := trace s @ map (\<lambda>r. OnlineSave r True) (take j rows)
                              @ [OnlineSave (rows ! j) False]\<rparr>)"
proof (induction rows arbitrary: i j s)
  case Nil
  then show ?case by simp
next
  case (Cons row rows)
  show ?case
  proof (cases j)
    case 0
    then show ?thesis using Cons.prems by (simp add: emit_def)
  next
    case (Suc j')
    have a: "ok i" using Cons.prems(3) Suc by force
    have b: "j' < length rows" using Cons.prems(1) Suc by simp
    have c: "\<not> ok (Suc i + j')" using Cons.prems(2) Suc by simp
    have d: "\<forall>k < j'. ok (Suc i + k)" using Cons.prems(3) Suc by force
    show ?thesis using Cons.IH [OF b c d] a Suc by (simp add: emit_def)
  qed
qed

lemma save_all_True_iff:
  "fst (save_all ok i rows s) \<longleftrightarrow> (\<forall>k < length rows. ok (i + k))"
proof (induction rows arbitrary: i s)
  case Nil
  then show ?case by simp
next
  case (Cons row rows)
  show ?case
  proof (cases "ok i")
    case True
    have "(\<forall>k < Suc (length rows). ok (i + k)) \<longleftrightarrow> (\<forall>k < length rows. ok (Suc i + k))"
      using True by (auto simp: less_Suc_eq_0_disj)
    then show ?thesis using True Cons.IH [of "Suc i"] by simp
  next
    case False
    then have "\<not> (\<forall>k < Suc (length rows). ok (i + k))" by force
    then show ?thesis using False by simp
  qed
qed

lemma is_sensor_assigned_buffer:
  "is_sensor_assigned env machine_id s = Inr (b, s1) \<Longrightarrow> buffer s1 = buffer s"
  by (auto simp: is_sensor_assigned_def buffer_emit split: sum.splits if_splits db_outcome.splits)

lemma is_sensor_assigned_trace:
  "is_sensor_assigned env machine_id s = Inr (b, s1) \<Longrightarrow> \<exists>es. trace s1 = trace s @ es \<and> set es \<subseteq> {DbQuery machine_id, Log Error}"
  by (auto simp: is_sensor_assigned_def trace_emit split: sum.splits if_splits db_outcome.splits)

lemma save_all_events:
  "\<exists>es. trace (snd (save_all ok i rows s)) = trace s @ es \<and> Clear \<notin> set es"
proof (induction rows arbitrary: i s)
  case Nil
  then show ?case by simp
next
  case (Cons row rows)
  show ?case
  proof (cases "ok i")
    case True
    obtain es where "trace (snd (save_all ok (Suc i) rows (emit (OnlineSave row True) s)))
        = trace (emit (OnlineSave row True) s) @ es" "Clear \<notin> set es"
      using Cons.IH by blast
    then show ?thesis using True by (simp add: trace_emit)
  next
    case False
    then show ?thesis by (simp add: trace_emit)
  qed
qed

lemma sync_offline_Clear:
  assumes "trace (sync_offline env s) = trace s @ es" "Clear \<in> set es"
  shows "\<forall>i < length (buffer s). save_row env i"
proof (cases "buffer s = []")
  case True
  then show ?thesis by simp
next
  case False
  let ?s1 = "emit LoadAll s"
  obtain ok s2 where sa: "save_all (save_row env) 0 (buffer s) ?s1 = (ok, s2)"
    by (cases "save_all (save_row env) 0 (buffer s) ?s1")
  obtain es2 where es2: "trace s2 = trace ?s1 @ es2" "Clear \<notin> set es2"
    using save_all_events [of "save_row env" 0 "buffer s" ?s1] sa by auto
  have "ok"
  proof (rule ccontr)
    assume "\<not> ok"
    then have "sync_offline env s = s2"
      using sa False by (simp add: sync_offline_def load_all_def buffer_emit)
    then have "es = LoadAll # es2" using assms(1) es2 by (simp add: trace_emit)
    then show False using assms(2) es2(2) by simp
  qed
  then show ?thesis
    using save_all_True_iff [of "save_row env" 0 "buffer s" ?s1] sa by simp
qed

lemma sync_offline_prefix: "\<exists>es. trace (sync_offline env s) = trace s @ es"
proof -
  let ?s1 = "emit LoadAll s"
  obtain ok s2 where sa: "save_all (save_row env) 0 (buffer s) ?s1 = (ok, s2)"
    by (cases "save_all (save_row env) 0 (buffer s) ?s1")
  obtain es2 where es2: "trace s2 = trace ?s1 @ es2"
    using save_all_events [of "save_row env" 0 "buffer s" ?s1] sa by auto
  show ?thesis using sa es2
    by (simp add: sync_offline_def load_all_def buffer_emit trace_emit Let_def)
qed

lemma cycle_Clear:
  assumes "Clear \<in> set (cycle_events machine_id env s)"
  shows "\<forall>i < length (buffer s). save_row env i"
proof -
  obtain b s1 where isa: "is_sensor_assigned env machine_id s = Inr (b, s1)"
    using assms
    by (cases "is_sensor_assigned env machine_id s")
       (auto simp: cycle_events_def cycle_def)
  obtain es1 where es1: "trace s1 = trace s @ es1" "set es1 \<subseteq> {DbQuery machine_id, Log Error}"
    using is_sensor_assigned_trace [OF isa] by blast
  have buf1: "buffer s1 = buffer s" using is_sensor_assigned_buffer [OF isa] .
  have c1: "Clear \<notin> set es1" using es1(2) by auto
  show ?thesis
  proof (cases "b \<and> (\<exists>d. read_data env = Some d) \<and> has_internet (probe_route env) = Inr True \<and> save_data env")
    case False
    then have "Clear \<notin> set (cycle_events machine_id env s)"
      using isa es1 c1
      by (auto simp: cycle_events_def cycle_def route_def state_of_sleep trace_emit
               split: option.splits sum.splits)
    then show ?thesis using assms by simp
  next
    case True
    then obtain d where d: "read_data env = Some d" by blast
    let ?s3 = "emit (OnlineSave d True) (emit ReadData s1)"
    obtain es where es: "trace (sync_offline env ?s3) = trace ?s3 @ es"
      using sync_offline_prefix by blast
    have "state_of (cycle machine_id env s) = emit (Sleep MEASUREMENT_INTERVAL) (sync_offline env ?s3)"
      using True isa d by (simp add: cycle_def route_def state_of_sleep)
    then have "cycle_events machine_id env s = es1 @ [ReadData, OnlineSave d True] @ es @ [Sleep MEASUREMENT_INTERVAL]"
      using es es1 by (simp add: cycle_events_def trace_emit)
    then have "Clear \<in> set es" using assms c1 by auto
    then have "\<forall>i < length (buffer ?s3). save_row env i"
      using sync_offline_Clear [OF es] by blast
    then show ?thesis using buf1 by (simp add: buffer_emit)
  qed
qed

lemma sync_offline_fail:
  assumes "j < length (buffer s)" "\<not> save_row env j" "\<forall>i < j. save_row env i"
  shows "sync_offline env s =
           s\<lparr>trace := trace s @ [LoadAll] @ map (\<lambda>r. OnlineSave r True) (take j (buffer s))
                          @ [OnlineSave (buffer s ! j) False]\<rparr>"
proof -
  have ne: "buffer s \<noteq> []" using assms(1) by auto
  have "save_all (save_row env) 0 (buffer s) (emit LoadAll s) =
          (False, (emit LoadAll s)\<lparr>trace := trace (emit LoadAll s)
              @ map (\<lambda>r. OnlineSave r True) (take j (buffer s)) @ [OnlineSave (buffer s ! j) False]\<rparr>)"
    using save_all_fail [of j "buffer s" "save_row env" 0 "emit LoadAll s"] assms by simp
  then show ?thesis using ne by (simp add: sync_offline_def load_all_def emit_def Let_def)
qed

lemma sync_offline_ok:
  assumes "\<forall>i < length (buffer s). save_row env i"
  shows "sync_offline env s =
           s\<lparr>buffer := [],
             trace := trace s @ [LoadAll] @ map (\<lambda>r. OnlineSave r True) (buffer s)
                        @ (if buffer s = [] then [] else [Clear])\<rparr>"
proof (cases "buffer s = []")
  case True
  then show ?thesis by (simp add: sync_offline_def load_all_def emit_def)
next
  case False
  have "save_all (save_row env) 0 (buffer s) (emit LoadAll s) =
          (True, (emit LoadAll s)\<lparr>trace := trace (emit LoadAll s)
              @ map (\<lambda>r. OnlineSave r True) (buffer s)\<rparr>)"
    using save_all_ok [of "buffer s" "save_row env" 0 "emit LoadAll s"] assms by simp
  then show ?thesis using False by (simp add: sync_offline_def load_all_def clear_def emit_def)
qed

lemma cycle_synced:
  assumes "is_sensor_assigned env machine_id s = Inr (True, s1)" "read_data env = Some data"
    "has_internet (probe_route env) = Inr True" "save_data env"
  shows "state_of (cycle machine_id env s) =
           emit (Sleep MEASUREMENT_INTERVAL)
             (sync_offline env (emit (OnlineSave data True) (emit ReadData s1)))"
  using assms by (simp add: cycle_def route_def state_of_sleep)

lemma online_saves_append: "online_saves (xs @ ys) = online_saves xs @ online_saves ys"
  by (induction xs rule: online_saves.induct) simp_all

lemma online_saves_map: "online_saves (map (\<lambda>r. OnlineSave r b) rows) = rows"
  by (induction rows) simp_all

lemma online_saves_lookup:
  "set es \<subseteq> {DbQuery machine_id, Log Error} \<Longrightarrow> online_saves es = []"
  by (induction es rule: online_saves.induct) simp_all

lemma sync_offline_LoadAll: "\<exists>es. trace (sync_offline env s) = trace s @ LoadAll # es"
proof -
  let ?s1 = "emit LoadAll s"
  obtain ok s2 where sa: "save_all (save_row env) 0 (buffer s) ?s1 = (ok, s2)"
    by (cases "save_all (save_row env) 0 (buffer s) ?s1")
  obtain es2 where es2: "trace s2 = trace ?s1 @ es2"
    using save_all_events [of "save_row env" 0 "buffer s" ?s1] sa by auto
  show ?thesis using sa es2
    by (simp add: sync_offline_def load_all_def buffer_emit trace_emit Let_def)
qed

lemma cycle_LoadAll:
  assumes "LoadAll \<in> set (cycle_events machine_id env s)"
  shows "\<exists>d pre post. read_data env = Some d \<and> save_data env
           \<and> cycle_events machine_id env s = pre @ [OnlineSave d True, LoadAll] @ post
           \<and> online_saves pre = []"
proof -
  obtain b s1 where isa: "is_sensor_assigned env machine_id s = Inr (b, s1)"
    using assms
    by (cases "is_sensor_assigned env machine_id s")
       (auto simp: cycle_events_def cycle_def)
  obtain es1 where es1: "trace s1 = trace s @ es1" "set es1 \<subseteq> {DbQuery machine_id, Log Error}"
    using is_sensor_assigned_trace [OF isa] by blast
  have c1: "LoadAll \<notin> set es1" using es1(2) by auto
  show ?thesis
  proof (cases "b \<and> (\<exists>d. read_data env = Some d) \<and> has_internet (probe_route env) = Inr True \<and> save_data env")
    case False
    then have "LoadAll \<notin> set (cycle_events machine_id env s)"
      using isa es1 c1
      by (auto simp: cycle_events_def cycle_def route_def state_of_sleep trace_emit
               split: option.splits sum.splits)
    then show ?thesis using assms by simp
  next
    case True
    then obtain d where d: "read_data env = Some d" by blast
    let ?s3 = "emit (OnlineSave d True) (emit ReadData s1)"
    obtain es where es: "trace (sync_offline env ?s3) = trace ?s3 @ LoadAll # es"
      using sync_offline_LoadAll by blast
    have "state_of (cycle machine_id env s) = emit (Sleep MEASUREMENT_INTERVAL) (sync_offline env ?s3)"
      using True isa d by (simp add: cycle_def route_def state_of_sleep)
    then have "cycle_events machine_id env s =
        (es1 @ [ReadData]) @ [OnlineSave d True, LoadAll] @ (es @ [Sleep MEASUREMENT_INTERVAL])"
      using es es1 by (simp add: cycle_events_def trace_emit)
    moreover have "online_saves (es1 @ [ReadData]) = []"
      using online_saves_lookup [OF es1(2)] by (simp add: online_saves_append)
    ultimately show ?thesis using d True by blast
  qed
qed

lemma cycle_excluded:
  assumes "is_sensor_assigned env machine_id s = Inr (False, s1)"
  shows "state_of (cycle machine_id env s) = emit (Sleep MEASUREMENT_INTERVAL) (emit (Log Info) s1)"
  using assms by (simp add: cycle_def state_of_sleep)

lemma append_reading_length: "0 < cap \<Longrightarrow> length (append_reading cap b r) \<le> cap"
  by (simp add: append_reading_def)

lemma append_all_drop:
  "0 < cap \<Longrightarrow> length b \<le> cap \<Longrightarrow>
   append_all cap b rs = drop (length b + length rs - cap) (b @ rs)"
proof (induction rs arbitrary: b)
  case Nil
  then show ?case by simp
next
  case (Cons r rs)
  let ?b = "append_reading cap b r"
  have len: "length ?b \<le> cap" using Cons.prems(1) by (rule append_reading_length)
  have "append_all cap b (r # rs) = drop (length ?b + length rs - cap) (?b @ rs)"
    using Cons.IH [OF Cons.prems(1) len] by simp
  also have "\<dots> = drop (length b + length (r # rs) - cap) (b @ r # rs)"
  proof (cases "cap \<le> length b")
    case True
    then have eq: "length b = cap" using Cons.prems(2) by simp
    have "?b = drop 1 b @ [r]" using eq Cons.prems(1) by (simp add: append_reading_def)
    then show ?thesis using eq Cons.prems(1) by (simp add: drop_Suc tl_drop)
  next
    case False
    then have "?b = b @ [r]" by (simp add: append_reading_def)
    then show ?thesis by simp
  qed
  finally show ?case .
qed

lemma append_all_length:
  "0 < cap \<Longrightarrow> length b \<le> cap \<Longrightarrow> length (append_all cap b rs) \<le> cap"
  by (simp add: append_all_drop)

lemma append_all_recent:
  assumes "0 < cap" "length b \<le> cap" "length rs = cap + K"
  shows "append_all cap b rs = drop K rs"
  using assms by (simp add: append_all_drop)

lemma append_all_suffix:
  assumes "0 < cap" "length rs \<le> cap"
  shows "drop (length (append_all cap b rs) - length rs) (append_all cap b rs) = rs"
proof (cases rs)
  case Nil
  then show ?thesis by simp
next
  case (Cons r rs')
  define b' where "b' = (if cap \<le> length b then drop (Suc (length b) - cap) b else b)"
  have ar: "append_reading cap b r = b' @ [r]" by (simp add: append_reading_def b'_def)
  have len: "length (b' @ [r]) \<le> cap"
    using append_reading_length [OF assms(1), of b r] ar by simp
  have "append_all cap b rs = append_all cap (b' @ [r]) rs'" using Cons ar by simp
  also have "\<dots> = drop (length (b' @ [r]) + length rs' - cap) ((b' @ [r]) @ rs')"
    using append_all_drop [OF assms(1) len] .
  also have "\<dots> = drop (length b' + length rs - cap) (b' @ rs)" using Cons by simp
  finally have eq: "append_all cap b rs = drop (length b' + length rs - cap) (b' @ rs)" .
  have "length b' + length rs - cap \<le> length b'" using assms(2) by simp
  then show ?thesis unfolding eq by simp
qed

lemma cycle_offline:
  assumes "has_internet (probe_assign env) = Inr False"
    "has_internet (probe_route env) = Inr False" "read_data env = Some data"
  shows "cycle machine_id env s =
           sleep env (s\<lparr>buffer := append_reading MAX_OFFLINE_RECORDS (buffer s) data,
                        trace := trace s @ [ReadData, OfflineSave data]\<rparr>)"
  using assms by (simp add: cycle_def is_sensor_assigned_def route_def emit_def)

lemma run_offline:
  "list_all2 offline_cycle envs rs \<Longrightarrow>
   run machine_id envs s =
     Running (s\<lparr>buffer := append_all MAX_OFFLINE_RECORDS (buffer s) rs,
                trace := trace s @ concat (map (\<lambda>r. [ReadData, OfflineSave r,
                                                       Sleep MEASUREMENT_INTERVAL]) rs)\<rparr>)"
proof (induction envs rs arbitrary: s rule: list_all2_induct)
  case Nil
  then show ?case by simp
next
  case (Cons env envs r rs)
  have "cycle machine_id env s =
      Continue (s\<lparr>buffer := append_reading MAX_OFFLINE_RECORDS (buffer s) r,
                  trace := trace s @ [ReadData, OfflineSave r, Sleep MEASUREMENT_INTERVAL]\<rparr>)"
    using Cons.hyps(1) cycle_offline [of env r machine_id s]
    by (simp add: offline_cycle_def sleep_def emit_def)
  then show ?case using Cons.IH by simp
qed

lemma sync_offline_buffer: "buffer (sync_offline env s) = buffer s \<or> buffer (sync_offline env s) = []"
proof -
  obtain ok s2 where sa: "save_all (save_row env) 0 (buffer s) (emit LoadAll s) = (ok, s2)"
    by (cases "save_all (save_row env) 0 (buffer s) (emit LoadAll s)")
  have "buffer s2 = buffer s"
    using save_all_buffer [of "save_row env" 0 "buffer s" "emit LoadAll s"] sa
    by (simp add: buffer_emit)
  then show ?thesis using sa
    by (simp add: sync_offline_def load_all_def clear_def Let_def buffer_emit)
qed

lemma route_buffer:
  "route env data s = Inr s' \<Longrightarrow>
   buffer s' = buffer s \<or> buffer s' = []
     \<or> buffer s' = append_reading MAX_OFFLINE_RECORDS (buffer s) data"
  using sync_offline_buffer [of env "emit (OnlineSave data True) s"]
  by (auto simp: route_def buffer_emit split: sum.splits if_splits)

lemma cycle_buffer:
  "buffer (state_of (cycle machine_id env s)) = buffer s
   \<or> buffer (state_of (cycle machine_id env s)) = []
   \<or> (\<exists>data. read_data env = Some data \<and>
        buffer (state_of (cycle machine_id env s)) = append_reading MAX_OFFLINE_RECORDS (buffer s) data)"
proof (cases "is_sensor_assigned env machine_id s")
  case (Inl e)
  then show ?thesis by (simp add: cycle_def)
next
  case (Inr p)
  obtain b s1 where p: "p = (b, s1)" by (cases p)
  have buf1: "buffer s1 = buffer s" using is_sensor_assigned_buffer Inr p by blast
  show ?thesis
  proof (cases "b \<and> read_data env \<noteq> None")
    case False
    then show ?thesis using Inr p buf1
      by (auto simp: cycle_def state_of_sleep buffer_emit)
  next
    case True
    then obtain data where d: "read_data env = Some data" by blast
    show ?thesis
    proof (cases "route env data (emit ReadData s1)")
      case (Inl e)
      then show ?thesis using Inr p True d buf1 by (simp add: cycle_def buffer_emit)
    next
      case r: (Inr s2)
      have "state_of (cycle machine_id env s) = emit (Sleep MEASUREMENT_INTERVAL) s2"
        using Inr p True d r by (simp add: cycle_def state_of_sleep)
      then show ?thesis using route_buffer [OF r] d buf1 by (auto simp: buffer_emit)
    qed
  qed
qed

lemma cycle_buffer_bound:
  assumes "length (buffer s) \<le> MAX_OFFLINE_RECORDS"
  shows "length (buffer (state_of (cycle machine_id env s))) \<le> MAX_OFFLINE_RECORDS"
proof -
  have "0 < MAX_OFFLINE_RECORDS" by (simp add: MAX_OFFLINE_RECORDS_def)
  then have "length (append_reading MAX_OFFLINE_RECORDS (buffer s) d) \<le> MAX_OFFLINE_RECORDS" for d
    by (rule append_reading_length)
  then show ?thesis using cycle_buffer [of machine_id env s] assms by auto
qed

section \<open>The claims\<close>

text \<open>
  C1 (atomic drain). \<open>Clear\<close> is among the calls of an iteration only if
  \<^verbatim>\<open>self.online.save\<close> was truthy for every row of the offline store. And in an
  iteration that reaches the drain (the sensor counts as assigned, the reading is read,
  the probe of \<^verbatim>\<open>run\<close> finds the internet, the fresh save is truthy) with \<open>M\<close> rows
  in the store, when the save of the row at position \<open>j < M\<close> is the first falsy one:
  the rows before it are saved in order, the row at \<open>j\<close> is the last save attempted,
  \<open>Clear\<close> is not called, and the store afterwards holds the same \<open>M\<close> rows.
\<close>

theorem drain_atomic:
  "(Clear \<in> set (cycle_events machine_id env s) \<longrightarrow> (\<forall>i < length (buffer s). save_row env i))
   \<and> (is_sensor_assigned env machine_id s = Inr (True, s1) \<and> read_data env = Some data
        \<and> has_internet (probe_route env) = Inr True \<and> save_data env
        \<and> j < length (buffer s) \<and> \<not> save_row env j \<and> (\<forall>i < j. save_row env i)
      \<longrightarrow> state_of (cycle machine_id env s) =
            s1\<lparr>trace := trace s1 @ [ReadData, OnlineSave data True, LoadAll]
                          @ map (\<lambda>r. OnlineSave r True) (take j (buffer s))
                          @ [OnlineSave (buffer s ! j) False, Sleep MEASUREMENT_INTERVAL]\<rparr>
          \<and> buffer (state_of (cycle machine_id env s)) = buffer s
          \<and> Clear \<notin> set (cycle_events machine_id env s))"
proof (intro conjI impI)
  show "\<forall>i < length (buffer s). save_row env i" if "Clear \<in> set (cycle_events machine_id env s)"
    using cycle_Clear [OF that] .
next
  assume h: "is_sensor_assigned env machine_id s = Inr (True, s1) \<and> read_data env = Some data
        \<and> has_internet (probe_route env) = Inr True \<and> save_data env
        \<and> j < length (buffer s) \<and> \<not> save_row env j \<and> (\<forall>i < j. save_row env i)"
  let ?s3 = "emit (OnlineSave data True) (emit ReadData s1)"
  have buf1: "buffer s1 = buffer s"
    using h is_sensor_assigned_buffer [of env machine_id s True s1] by simp
  have buf: "buffer ?s3 = buffer s"
    using buf1 by (simp add: buffer_emit)
  have so: "sync_offline env ?s3 =
      ?s3\<lparr>trace := trace ?s3 @ [LoadAll] @ map (\<lambda>r. OnlineSave r True) (take j (buffer ?s3))
                          @ [OnlineSave (buffer ?s3 ! j) False]\<rparr>"
    using sync_offline_fail [of j ?s3 env] h buf by simp
  have st: "state_of (cycle machine_id env s) = emit (Sleep MEASUREMENT_INTERVAL) (sync_offline env ?s3)"
  proof (rule cycle_synced)
    show "is_sensor_assigned env machine_id s = Inr (True, s1)" using h by (rule conjunct1)
    show "read_data env = Some data" using h by simp
    show "has_internet (probe_route env) = Inr True" using h by simp
    show "save_data env" using h by simp
  qed
  show eq: "state_of (cycle machine_id env s) =
            s1\<lparr>trace := trace s1 @ [ReadData, OnlineSave data True, LoadAll]
                          @ map (\<lambda>r. OnlineSave r True) (take j (buffer s))
                          @ [OnlineSave (buffer s ! j) False, Sleep MEASUREMENT_INTERVAL]\<rparr>"
    unfolding st so buf by (simp add: emit_def)
  show "buffer (state_of (cycle machine_id env s)) = buffer s"
    unfolding eq using buf1 by simp
  show "Clear \<notin> set (cycle_events machine_id env s)"
    using cycle_Clear [of machine_id env s] h by blast
qed


text \<open>
  The store holds 2, 3, 4 and the save of the second row fails: the third row is not
  attempted and the store is unchanged. With every save truthy, \<open>Clear\<close> is called.
\<close>

theorem drain_atomic_witness:
  "state_of (cycle ''pi'' (env_of Opened (Fetched (Some (SqlInt 7, SqlInt 1))) (Some 5) Opened True (\<lambda>i. i \<noteq> 1))
        \<lparr>buffer = [2, 3, 4], trace = []\<rparr>)
     = \<lparr>buffer = [2, 3, 4::nat],
        trace = [DbQuery ''pi'', ReadData, OnlineSave 5 True, LoadAll, OnlineSave 2 True,
                 OnlineSave 3 False, Sleep 300]\<rparr>
   \<and> Clear \<in> set (cycle_events ''pi'' (env_of Opened (Fetched (Some (SqlInt 7, SqlInt 1))) (Some 5) Opened True (\<lambda>i. True))
        \<lparr>buffer = [2, 3, 4::nat], trace = []\<rparr>)
   \<and> save_row (env_of Opened (Fetched (Some (SqlInt 7, SqlInt 1))) (Some (5::nat)) Opened True (\<lambda>i. True)) 2"
proof -
  let ?env = "env_of Opened (Fetched (Some (SqlInt 7, SqlInt 1))) (Some (5::nat)) Opened True (\<lambda>i. i \<noteq> 1)"
  let ?env' = "env_of Opened (Fetched (Some (SqlInt 7, SqlInt 1))) (Some (5::nat)) Opened True (\<lambda>i. True)"
  let ?s = "\<lparr>buffer = [2, 3, 4::nat], trace = []\<rparr>"
  let ?s1 = "\<lparr>buffer = [2, 3, 4::nat], trace = [DbQuery ''pi'']\<rparr>"
  have h: "is_sensor_assigned ?env ''pi'' ?s = Inr (True, ?s1) \<and> read_data ?env = Some 5
      \<and> has_internet (probe_route ?env) = Inr True \<and> save_data ?env
      \<and> 1 < length (buffer ?s) \<and> \<not> save_row ?env 1 \<and> (\<forall>i < 1. save_row ?env i)"
    by (simp add: is_sensor_assigned_def has_internet_def INTERNET_TEST_URLS_def env_of_def emit_def)
  have c: "Clear \<in> set (cycle_events ''pi'' ?env' ?s)"
    by (simp add: cycle_events_def cycle_def route_def sync_offline_def load_all_def clear_def
          sleep_def is_sensor_assigned_def has_internet_def INTERNET_TEST_URLS_def env_of_def emit_def)
  note fail = drain_atomic [of "''pi''" ?env ?s ?s1 5 1, THEN conjunct2, THEN mp, OF h, THEN conjunct1]
  note only = drain_atomic [of "''pi''" ?env' ?s, THEN conjunct1, THEN mp, OF c]
  have "state_of (cycle ''pi'' ?env ?s) =
      \<lparr>buffer = [2, 3, 4::nat],
        trace = [DbQuery ''pi'', ReadData, OnlineSave 5 True, LoadAll, OnlineSave 2 True,
                 OnlineSave 3 False, Sleep 300]\<rparr>"
    unfolding fail by (simp add: MEASUREMENT_INTERVAL_def)
  moreover have "save_row ?env' 2"
    using only by simp
  ultimately show ?thesis using c by blast
qed

text \<open>
  C2 (drain, then clear). \<open>LoadAll\<close> is among the calls of an iteration only if the
  fresh reading was saved online with a truthy result, and it is then the call right
  after that save, which is the first online save of the iteration. And in an iteration
  that reaches the drain with \<open>M\<close> rows in the store, when every one of the \<open>M\<close> saves is
  truthy: the store is empty afterwards, and the readings handed to
  \<^verbatim>\<open>self.online.save\<close> are the fresh one followed by the \<open>M\<close> rows, oldest first.
\<close>

theorem drain_then_clear:
  "(LoadAll \<in> set (cycle_events machine_id env s) \<longrightarrow>
      (\<exists>d pre post. read_data env = Some d \<and> save_data env
           \<and> cycle_events machine_id env s = pre @ [OnlineSave d True, LoadAll] @ post
           \<and> online_saves pre = []))
   \<and> (is_sensor_assigned env machine_id s = Inr (True, s1) \<and> read_data env = Some data
        \<and> has_internet (probe_route env) = Inr True \<and> save_data env
        \<and> (\<forall>i < length (buffer s). save_row env i)
      \<longrightarrow> state_of (cycle machine_id env s) =
            s1\<lparr>buffer := [],
               trace := trace s1 @ [ReadData, OnlineSave data True, LoadAll]
                          @ map (\<lambda>r. OnlineSave r True) (buffer s)
                          @ (if buffer s = [] then [] else [Clear])
                          @ [Sleep MEASUREMENT_INTERVAL]\<rparr>
          \<and> buffer (state_of (cycle machine_id env s)) = []
          \<and> online_saves (cycle_events machine_id env s) = data # buffer s)"
proof (intro conjI impI)
  show "\<exists>d pre post. read_data env = Some d \<and> save_data env
           \<and> cycle_events machine_id env s = pre @ [OnlineSave d True, LoadAll] @ post
           \<and> online_saves pre = []"
    if "LoadAll \<in> set (cycle_events machine_id env s)"
    using cycle_LoadAll [OF that] .
next
  assume h: "is_sensor_assigned env machine_id s = Inr (True, s1) \<and> read_data env = Some data
        \<and> has_internet (probe_route env) = Inr True \<and> save_data env
        \<and> (\<forall>i < length (buffer s). save_row env i)"
  let ?s3 = "emit (OnlineSave data True) (emit ReadData s1)"
  have isa: "is_sensor_assigned env machine_id s = Inr (True, s1)" using h by (rule conjunct1)
  have buf1: "buffer s1 = buffer s"
    using is_sensor_assigned_buffer [OF isa] .
  obtain es1 where es1: "trace s1 = trace s @ es1" "set es1 \<subseteq> {DbQuery machine_id, Log Error}"
    using is_sensor_assigned_trace [OF isa] by blast
  have buf: "buffer ?s3 = buffer s"
    using buf1 by (simp add: buffer_emit)
  have "\<forall>i < length (buffer ?s3). save_row env i" using h buf by simp
  then have so: "sync_offline env ?s3 =
      ?s3\<lparr>buffer := [],
          trace := trace ?s3 @ [LoadAll] @ map (\<lambda>r. OnlineSave r True) (buffer ?s3)
                        @ (if buffer ?s3 = [] then [] else [Clear])\<rparr>"
    by (rule sync_offline_ok)
  have st: "state_of (cycle machine_id env s) = emit (Sleep MEASUREMENT_INTERVAL) (sync_offline env ?s3)"
  proof (rule cycle_synced)
    show "is_sensor_assigned env machine_id s = Inr (True, s1)" by (rule isa)
    show "read_data env = Some data" using h by simp
    show "has_internet (probe_route env) = Inr True" using h by simp
    show "save_data env" using h by simp
  qed
  show eq: "state_of (cycle machine_id env s) =
            s1\<lparr>buffer := [],
               trace := trace s1 @ [ReadData, OnlineSave data True, LoadAll]
                          @ map (\<lambda>r. OnlineSave r True) (buffer s)
                          @ (if buffer s = [] then [] else [Clear])
                          @ [Sleep MEASUREMENT_INTERVAL]\<rparr>"
    unfolding st so buf by (simp add: emit_def)
  show "buffer (state_of (cycle machine_id env s)) = []"
    unfolding eq by simp
  have "cycle_events machine_id env s =
      es1 @ [ReadData, OnlineSave data True, LoadAll] @ map (\<lambda>r. OnlineSave r True) (buffer s)
          @ (if buffer s = [] then [] else [Clear]) @ [Sleep MEASUREMENT_INTERVAL]"
    unfolding cycle_events_def eq using es1(1) by simp
  then show "online_saves (cycle_events machine_id env s) = data # buffer s"
    using online_saves_lookup [OF es1(2)]
    by (simp add: online_saves_append online_saves_map)
qed

text \<open>
  The store holds 2, 3, 4 and the fresh reading is 5: the remote store receives
  5, 2, 3, 4 in that order and the offline store is cleared.
\<close>

theorem drain_then_clear_witness:
  "state_of (cycle ''pi'' (env_of Opened (Fetched (Some (SqlInt 7, SqlInt 1))) (Some 5) Opened True (\<lambda>i. True))
        \<lparr>buffer = [2, 3, 4], trace = []\<rparr>)
     = \<lparr>buffer = [],
        trace = [DbQuery ''pi'', ReadData, OnlineSave (5::nat) True, LoadAll, OnlineSave 2 True,
                 OnlineSave 3 True, OnlineSave 4 True, Clear, Sleep 300]\<rparr>
   \<and> online_saves (cycle_events ''pi'' (env_of Opened (Fetched (Some (SqlInt 7, SqlInt 1))) (Some 5) Opened True (\<lambda>i. True))
        \<lparr>buffer = [2, 3, 4], trace = []\<rparr>) = [5, 2, 3, 4::nat]
   \<and> LoadAll \<in> set (cycle_events ''pi'' (env_of Opened (Fetched (Some (SqlInt 7, SqlInt 1))) (Some 5) Opened True (\<lambda>i. True))
        \<lparr>buffer = [2, 3, 4::nat], trace = []\<rparr>)
   \<and> save_data (env_of Opened (Fetched (Some (SqlInt 7, SqlInt 1))) (Some (5::nat)) Opened True (\<lambda>i. True))"
proof -
  let ?env = "env_of Opened (Fetched (Some (SqlInt 7, SqlInt 1))) (Some (5::nat)) Opened True (\<lambda>i. True)"
  let ?s = "\<lparr>buffer = [2, 3, 4::nat], trace = []\<rparr>"
  let ?s1 = "\<lparr>buffer = [2, 3, 4::nat], trace = [DbQuery ''pi'']\<rparr>"
  have h: "is_sensor_assigned ?env ''pi'' ?s = Inr (True, ?s1) \<and> read_data ?env = Some 5
      \<and> has_internet (probe_route ?env) = Inr True \<and> save_data ?env
      \<and> (\<forall>i < length (buffer ?s). save_row ?env i)"
    by (simp add: is_sensor_assigned_def has_internet_def INTERNET_TEST_URLS_def env_of_def emit_def)
  have c: "LoadAll \<in> set (cycle_events ''pi'' ?env ?s)"
    by (simp add: cycle_events_def cycle_def route_def sync_offline_def load_all_def clear_def
          sleep_def is_sensor_assigned_def has_internet_def INTERNET_TEST_URLS_def env_of_def emit_def)
  note all_ok = drain_then_clear [of "''pi''" ?env ?s ?s1 5, THEN conjunct2, THEN mp, OF h]
  note only = drain_then_clear [of "''pi''" ?env ?s, THEN conjunct1, THEN mp, OF c]
  have "state_of (cycle ''pi'' ?env ?s) =
      \<lparr>buffer = [],
        trace = [DbQuery ''pi'', ReadData, OnlineSave (5::nat) True, LoadAll, OnlineSave 2 True,
                 OnlineSave 3 True, OnlineSave 4 True, Clear, Sleep 300]\<rparr>"
    unfolding all_ok [THEN conjunct1] by (simp add: MEASUREMENT_INTERVAL_def)
  moreover have "online_saves (cycle_events ''pi'' ?env ?s) = [5, 2, 3, 4]"
    using all_ok by simp
  moreover have "save_data ?env" using only by blast
  ultimately show ?thesis using c by blast
qed

text \<open>
  C3 (fallback to the buffer when the fresh write fails). The claim says that a reading
  whose online save fails is appended to the offline store. In \<^verbatim>\<open>run\<close> the
  \<^verbatim>\<open>else\<close> that calls \<^verbatim>\<open>self.offline.save(data)\<close> belongs to the test of
  \<^verbatim>\<open>has_internet\<close>, so with the internet up and a falsy \<^verbatim>\<open>self.online.save(data)\<close>
  nothing is stored: the sensor is assigned, the reading 5 is read, the save fails, and
  the iteration ends with an empty store and no \<open>OfflineSave\<close> call.
\<close>

theorem fresh_save_failure_drops_reading:
  "cycle ''pi'' (env_of Opened (Fetched (Some (SqlInt 7, SqlInt 1))) (Some (5::nat)) Opened False (\<lambda>i. True))
      \<lparr>buffer = [], trace = []\<rparr>
   = Continue \<lparr>buffer = [],
               trace = [DbQuery ''pi'', ReadData, OnlineSave 5 False, Sleep 300]\<rparr>"
  by (simp add: cycle_def route_def sleep_def is_sensor_assigned_def has_internet_def
        INTERNET_TEST_URLS_def env_of_def emit_def MEASUREMENT_INTERVAL_def)

text \<open>
  C4 (online only when authorized). The claim says that a fresh reading reaches the
  remote store only in an iteration whose lookup found the sensor authorized.
  \<^verbatim>\<open>has_internet\<close> is called twice in an iteration: when the call inside
  \<^verbatim>\<open>is_sensor_assigned\<close> finds no internet the lookup is skipped and the sensor counts as
  assigned, and when the call in \<^verbatim>\<open>run\<close> then finds the internet the reading is saved
  online. Here the sensor has no row in the table: with the first probe failing, the
  reading 5 is saved online and no query is made; with the first probe succeeding, the
  same iteration is skipped.
\<close>

theorem unverified_reading_saved_online:
  "cycle ''pi'' (env_of RaisedURLError (Fetched None) (Some (5::nat)) Opened True (\<lambda>i. True))
      \<lparr>buffer = [], trace = []\<rparr>
   = Continue \<lparr>buffer = [], trace = [ReadData, OnlineSave 5 True, LoadAll, Sleep 300]\<rparr>
   \<and> cycle ''pi'' (env_of Opened (Fetched None) (Some (5::nat)) Opened True (\<lambda>i. True))
      \<lparr>buffer = [], trace = []\<rparr>
   = Continue \<lparr>buffer = [], trace = [DbQuery ''pi'', Log Info, Sleep 300]\<rparr>"
  by (simp add: cycle_def route_def sync_offline_def load_all_def sleep_def is_sensor_assigned_def
        has_internet_def INTERNET_TEST_URLS_def env_of_def emit_def MEASUREMENT_INTERVAL_def)

text \<open>
  C8 (total cycle loop). The claim says that the probe never raises and that no exception
  but the operator's interrupt leaves the loop. \<^verbatim>\<open>has_internet\<close> catches
  \<^verbatim>\<open>URLError\<close> only, and \<^verbatim>\<open>run\<close> catches \<^verbatim>\<open>KeyboardInterrupt\<close> only: when
  \<^verbatim>\<open>urlopen\<close> raises another exception for the first URL the probe raises, although the
  second URL would have answered, and \<^verbatim>\<open>run\<close> ends with that exception, in the second
  run after the reading 5 was read and before it was stored anywhere.
\<close>

theorem probe_exception_leaves_run:
  "has_internet (\<lambda>url. if url = ''http://www.google.com'' then RaisedOther else Opened)
     = Inl UncaughtError
   \<and> run ''pi'' [env_of RaisedOther (Fetched (Some (SqlInt 7, SqlInt 1))) (Some (5::nat)) Opened True (\<lambda>i. True)]
        \<lparr>buffer = [], trace = []\<rparr>
     = Crashed UncaughtError \<lparr>buffer = [], trace = []\<rparr>
   \<and> run ''pi'' [env_of Opened (Fetched (Some (SqlInt 7, SqlInt 1))) (Some (5::nat)) RaisedOther True (\<lambda>i. True)]
        \<lparr>buffer = [], trace = []\<rparr>
     = Crashed UncaughtError \<lparr>buffer = [], trace = [DbQuery ''pi'', ReadData]\<rparr>"
  by (simp add: cycle_def route_def sleep_def is_sensor_assigned_def
        has_internet_def INTERNET_TEST_URLS_def env_of_def emit_def)

text \<open>
  C5 (exclusion over buffering). In an iteration where the probe of
  \<^verbatim>\<open>is_sensor_assigned\<close> finds the internet and the lookup returns no row, or a row that
  does not make the sensor assigned, the calls are the query, the log line and the sleep:
  the sensor is not read, nothing is saved online, nothing is saved offline and the store
  is unchanged, whatever the sensor would have returned.
\<close>

theorem unauthorized_skips_collection:
  assumes "has_internet (probe_assign env) = Inr True"
    and "lookup env machine_id = Fetched row"
    and "\<not> row_assigned row"
  shows "state_of (cycle machine_id env s) =
           s\<lparr>trace := trace s @ [DbQuery machine_id, Log Info, Sleep MEASUREMENT_INTERVAL]\<rparr>
         \<and> cycle_events machine_id env s = [DbQuery machine_id, Log Info, Sleep MEASUREMENT_INTERVAL]
         \<and> buffer (state_of (cycle machine_id env s)) = buffer s
         \<and> ReadData \<notin> set (cycle_events machine_id env s)
         \<and> online_saves (cycle_events machine_id env s) = []
         \<and> (\<forall>r. OfflineSave r \<notin> set (cycle_events machine_id env s))"
proof -
  have isa: "is_sensor_assigned env machine_id s = Inr (False, emit (DbQuery machine_id) s)"
    using assms by (simp add: is_sensor_assigned_def)
  have st: "state_of (cycle machine_id env s) =
           s\<lparr>trace := trace s @ [DbQuery machine_id, Log Info, Sleep MEASUREMENT_INTERVAL]\<rparr>"
    unfolding cycle_excluded [OF isa] by (simp add: emit_def)
  have ev: "cycle_events machine_id env s = [DbQuery machine_id, Log Info, Sleep MEASUREMENT_INTERVAL]"
    unfolding cycle_events_def st by simp
  show ?thesis unfolding ev using st by simp
qed

text \<open>The row has a null \<^verbatim>\<open>farm_id\<close>, and the sensor would have returned the reading 5.\<close>

theorem unauthorized_skips_collection_witness:
  "state_of (cycle ''pi'' (env_of Opened (Fetched (Some (SqlNull, SqlInt 1))) (Some (5::nat)) Opened True (\<lambda>i. True))
      \<lparr>buffer = [2], trace = []\<rparr>)
   = \<lparr>buffer = [2], trace = [DbQuery ''pi'', Log Info, Sleep 300]\<rparr>"
proof -
  let ?env = "env_of Opened (Fetched (Some (SqlNull, SqlInt 1))) (Some (5::nat)) Opened True (\<lambda>i. True)"
  have a: "has_internet (probe_assign ?env) = Inr True"
    by (simp add: env_of_def has_internet_def INTERNET_TEST_URLS_def)
  have b: "lookup ?env ''pi'' = Fetched (Some (SqlNull, SqlInt 1))"
    by (simp add: env_of_def)
  have c: "\<not> row_assigned (Some (SqlNull, SqlInt 1))" by simp
  show ?thesis
    unfolding unauthorized_skips_collection [OF a b c, of "\<lparr>buffer = [2], trace = []\<rparr>", THEN conjunct1]
    by (simp add: MEASUREMENT_INTERVAL_def)
qed

text \<open>
  C6 (fail-safe on an indeterminate authorization). In an iteration where the probe of
  \<^verbatim>\<open>is_sensor_assigned\<close> finds the internet and the database block raises, the calls are
  the query, the error log line, the log line of the skipped iteration and the sleep. The
  store and the calls are those of any unauthorized iteration from the same state, the
  error log line apart; and they are not those of an offline iteration, which reads the
  sensor and saves the reading offline.
\<close>

theorem lookup_error_is_exclusion:
  assumes "has_internet (probe_assign env) = Inr True"
    and "lookup env machine_id = DbRaised"
  shows "state_of (cycle machine_id env s) =
           s\<lparr>trace := trace s @ [DbQuery machine_id, Log Error, Log Info, Sleep MEASUREMENT_INTERVAL]\<rparr>
         \<and> (\<forall>env_u row. has_internet (probe_assign env_u) = Inr True
                \<and> lookup env_u machine_id = Fetched row \<and> \<not> row_assigned row
              \<longrightarrow> buffer (state_of (cycle machine_id env s)) = buffer (state_of (cycle machine_id env_u s))
                \<and> removeAll (Log Error) (cycle_events machine_id env s) = cycle_events machine_id env_u s)
         \<and> (\<forall>env_o data. has_internet (probe_assign env_o) = Inr False
                \<and> has_internet (probe_route env_o) = Inr False \<and> read_data env_o = Some data
              \<longrightarrow> OfflineSave data \<in> set (cycle_events machine_id env_o s)
                \<and> OfflineSave data \<notin> set (cycle_events machine_id env s)
                \<and> ReadData \<in> set (cycle_events machine_id env_o s)
                \<and> ReadData \<notin> set (cycle_events machine_id env s))"
proof -
  have isa: "is_sensor_assigned env machine_id s = Inr (False, emit (Log Error) (emit (DbQuery machine_id) s))"
    using assms by (simp add: is_sensor_assigned_def)
  have st: "state_of (cycle machine_id env s) =
           s\<lparr>trace := trace s @ [DbQuery machine_id, Log Error, Log Info, Sleep MEASUREMENT_INTERVAL]\<rparr>"
    unfolding cycle_excluded [OF isa] by (simp add: emit_def)
  have ev: "cycle_events machine_id env s =
      [DbQuery machine_id, Log Error, Log Info, Sleep MEASUREMENT_INTERVAL]"
    unfolding cycle_events_def st by simp
  have u: "buffer (state_of (cycle machine_id env s)) = buffer (state_of (cycle machine_id env_u s))
        \<and> removeAll (Log Error) (cycle_events machine_id env s) = cycle_events machine_id env_u s"
    if "has_internet (probe_assign env_u) = Inr True \<and> lookup env_u machine_id = Fetched row
        \<and> \<not> row_assigned row" for env_u :: "'a cycle_env" and row
  proof -
    have "is_sensor_assigned env_u machine_id s = Inr (False, emit (DbQuery machine_id) s)"
      using that by (simp add: is_sensor_assigned_def)
    then have "state_of (cycle machine_id env_u s) =
           s\<lparr>trace := trace s @ [DbQuery machine_id, Log Info, Sleep MEASUREMENT_INTERVAL]\<rparr>"
      by (simp add: cycle_excluded emit_def)
    then show ?thesis unfolding ev st by (simp add: cycle_events_def)
  qed
  have o: "OfflineSave data \<in> set (cycle_events machine_id env_o s)
        \<and> OfflineSave data \<notin> set (cycle_events machine_id env s)
        \<and> ReadData \<in> set (cycle_events machine_id env_o s)
        \<and> ReadData \<notin> set (cycle_events machine_id env s)"
    if "has_internet (probe_assign env_o) = Inr False
        \<and> has_internet (probe_route env_o) = Inr False \<and> read_data env_o = Some data"
    for env_o :: "'a cycle_env" and data
  proof -
    have "cycle_events machine_id env_o s = [ReadData, OfflineSave data, Sleep MEASUREMENT_INTERVAL]"
      using that
      by (simp add: cycle_events_def cycle_def is_sensor_assigned_def route_def state_of_sleep emit_def)
    then show ?thesis unfolding ev by simp
  qed
  show ?thesis using st u o by blast
qed

text \<open>The lookup raises; the unauthorized run has no row; the offline run reads 5.\<close>

theorem lookup_error_is_exclusion_witness:
  "state_of (cycle ''pi'' (env_of Opened DbRaised (Some (5::nat)) Opened True (\<lambda>i. True))
      \<lparr>buffer = [2], trace = []\<rparr>)
     = \<lparr>buffer = [2], trace = [DbQuery ''pi'', Log Error, Log Info, Sleep 300]\<rparr>
   \<and> removeAll (Log Error)
       (cycle_events ''pi'' (env_of Opened DbRaised (Some (5::nat)) Opened True (\<lambda>i. True))
          \<lparr>buffer = [2], trace = []\<rparr>)
     = cycle_events ''pi'' (env_of Opened (Fetched None) (Some (5::nat)) Opened True (\<lambda>i. True))
          \<lparr>buffer = [2], trace = []\<rparr>
   \<and> OfflineSave 5 \<in> set (cycle_events ''pi''
          (env_of RaisedURLError DbRaised (Some (5::nat)) RaisedURLError True (\<lambda>i. True))
          \<lparr>buffer = [2], trace = []\<rparr>)
   \<and> OfflineSave 5 \<notin> set (cycle_events ''pi''
          (env_of Opened DbRaised (Some (5::nat)) Opened True (\<lambda>i. True))
          \<lparr>buffer = [2], trace = []\<rparr>)"
proof -
  let ?env = "env_of Opened DbRaised (Some (5::nat)) Opened True (\<lambda>i. True)"
  let ?env_u = "env_of Opened (Fetched None) (Some (5::nat)) Opened True (\<lambda>i. True)"
  let ?env_o = "env_of RaisedURLError DbRaised (Some (5::nat)) RaisedURLError True (\<lambda>i. True)"
  let ?s = "\<lparr>buffer = [2::nat], trace = []\<rparr>"
  have a: "has_internet (probe_assign ?env) = Inr True"
    by (simp add: env_of_def has_internet_def INTERNET_TEST_URLS_def)
  have b: "lookup ?env ''pi'' = DbRaised"
    by (simp add: env_of_def)
  have u: "has_internet (probe_assign ?env_u) = Inr True
      \<and> lookup ?env_u ''pi'' = Fetched None \<and> \<not> row_assigned None"
    by (simp add: env_of_def has_internet_def INTERNET_TEST_URLS_def)
  have o: "has_internet (probe_assign ?env_o) = Inr False
      \<and> has_internet (probe_route ?env_o) = Inr False \<and> read_data ?env_o = Some 5"
    by (simp add: env_of_def has_internet_def INTERNET_TEST_URLS_def)
  note inst = lookup_error_is_exclusion [OF a b, of ?s]
  note t1 = inst [THEN conjunct1]
  note t2 = inst [THEN conjunct2, THEN conjunct1, THEN spec, THEN spec, THEN mp, OF u, THEN conjunct2]
  note t3 = inst [THEN conjunct2, THEN conjunct2, THEN spec, THEN spec, THEN mp, OF o]
  have "state_of (cycle ''pi'' ?env ?s)
     = \<lparr>buffer = [2], trace = [DbQuery ''pi'', Log Error, Log Info, Sleep 300]\<rparr>"
    unfolding t1 by (simp add: MEASUREMENT_INTERVAL_def)
  then show ?thesis using t2 t3 by blast
qed

text \<open>
  C10 (the authorization predicate). When the probe of \<^verbatim>\<open>is_sensor_assigned\<close> finds the
  internet, the function returns \<^verbatim>\<open>True\<close> exactly when the lookup returns a row whose
  \<^verbatim>\<open>farm_id\<close> is not null and whose \<^verbatim>\<open>is_active\<close> is 1. A missing row, a null
  \<^verbatim>\<open>farm_id\<close>, another value of \<^verbatim>\<open>is_active\<close> and an exception in the database block all
  give \<^verbatim>\<open>False\<close>, and the sensor is read in such an iteration only when the row is
  of that kind.
\<close>

theorem authorization_predicate:
  assumes "has_internet (probe_assign env) = Inr True"
  shows "is_sensor_assigned env machine_id s =
           Inr ((\<exists>farm_id. farm_id \<noteq> SqlNull
                   \<and> lookup env machine_id = Fetched (Some (farm_id, SqlInt 1))),
                (if lookup env machine_id = DbRaised
                 then emit (Log Error) (emit (DbQuery machine_id) s)
                 else emit (DbQuery machine_id) s))
         \<and> (lookup env machine_id = Fetched None \<longrightarrow>
               is_sensor_assigned env machine_id s = Inr (False, emit (DbQuery machine_id) s))
         \<and> (lookup env machine_id = Fetched (Some (SqlNull, is_active)) \<longrightarrow>
               is_sensor_assigned env machine_id s = Inr (False, emit (DbQuery machine_id) s))
         \<and> (lookup env machine_id = Fetched (Some (farm_id, is_active)) \<and> is_active \<noteq> SqlInt 1 \<longrightarrow>
               is_sensor_assigned env machine_id s = Inr (False, emit (DbQuery machine_id) s))
         \<and> (lookup env machine_id = DbRaised \<longrightarrow>
               is_sensor_assigned env machine_id s =
                 Inr (False, emit (Log Error) (emit (DbQuery machine_id) s)))
         \<and> (ReadData \<in> set (cycle_events machine_id env s) \<longrightarrow>
               (\<exists>farm_id. farm_id \<noteq> SqlNull
                   \<and> lookup env machine_id = Fetched (Some (farm_id, SqlInt 1))))"
proof -
  have main: "is_sensor_assigned env machine_id s =
           Inr ((\<exists>farm_id. farm_id \<noteq> SqlNull
                   \<and> lookup env machine_id = Fetched (Some (farm_id, SqlInt 1))),
                (if lookup env machine_id = DbRaised
                 then emit (Log Error) (emit (DbQuery machine_id) s)
                 else emit (DbQuery machine_id) s))"
  proof (cases "lookup env machine_id")
    case DbRaised
    then show ?thesis using assms by (simp add: is_sensor_assigned_def)
  next
    case (Fetched result)
    show ?thesis
    proof (cases result)
      case None
      then show ?thesis using assms Fetched by (simp add: is_sensor_assigned_def)
    next
      case (Some row)
      obtain f a where "row = (f, a)" by (cases row)
      then show ?thesis using assms Fetched Some by (auto simp: is_sensor_assigned_def)
    qed
  qed
  have rd: "\<exists>farm_id. farm_id \<noteq> SqlNull
                   \<and> lookup env machine_id = Fetched (Some (farm_id, SqlInt 1))"
    if r: "ReadData \<in> set (cycle_events machine_id env s)"
  proof (rule ccontr)
    assume n: "\<not> (\<exists>farm_id. farm_id \<noteq> SqlNull
                   \<and> lookup env machine_id = Fetched (Some (farm_id, SqlInt 1)))"
    let ?s1 = "if lookup env machine_id = DbRaised
                 then emit (Log Error) (emit (DbQuery machine_id) s)
                 else emit (DbQuery machine_id) s"
    have "is_sensor_assigned env machine_id s = Inr (False, ?s1)" using main n by simp
    then have "state_of (cycle machine_id env s) = emit (Sleep MEASUREMENT_INTERVAL) (emit (Log Info) ?s1)"
      by (rule cycle_excluded)
    then have "cycle_events machine_id env s =
        (if lookup env machine_id = DbRaised
         then [DbQuery machine_id, Log Error, Log Info, Sleep MEASUREMENT_INTERVAL]
         else [DbQuery machine_id, Log Info, Sleep MEASUREMENT_INTERVAL])"
      unfolding cycle_events_def by (simp add: emit_def)
    then have "ReadData \<notin> set (cycle_events machine_id env s)"
      by simp
    then show False using r by simp
  qed
  show ?thesis using main rd by auto
qed

text \<open>A row with farm 7 and \<^verbatim>\<open>is_active\<close> 1 is assigned; the same row with 0 is not.\<close>

theorem authorization_predicate_witness:
  "is_sensor_assigned (env_of Opened (Fetched (Some (SqlInt 7, SqlInt 1))) (Some (5::nat)) Opened True (\<lambda>i. True))
      ''pi'' \<lparr>buffer = [], trace = []\<rparr>
     = Inr (True, \<lparr>buffer = [], trace = [DbQuery ''pi'']\<rparr>)
   \<and> is_sensor_assigned (env_of Opened (Fetched (Some (SqlInt 7, SqlInt 0))) (Some (5::nat)) Opened True (\<lambda>i. True))
      ''pi'' \<lparr>buffer = [], trace = []\<rparr>
     = Inr (False, \<lparr>buffer = [], trace = [DbQuery ''pi'']\<rparr>)"
proof -
  let ?env = "env_of Opened (Fetched (Some (SqlInt 7, SqlInt 1))) (Some (5::nat)) Opened True (\<lambda>i. True)"
  let ?env_z = "env_of Opened (Fetched (Some (SqlInt 7, SqlInt 0))) (Some (5::nat)) Opened True (\<lambda>i. True)"
  let ?s = "\<lparr>buffer = [], trace = []\<rparr> :: nat state"
  have a: "has_internet (probe_assign ?env) = Inr True"
    by (simp add: env_of_def has_internet_def INTERNET_TEST_URLS_def)
  have a0: "has_internet (probe_assign ?env_z) = Inr True"
    by (simp add: env_of_def has_internet_def INTERNET_TEST_URLS_def)
  have l: "lookup ?env ''pi'' = Fetched (Some (SqlInt 7, SqlInt 1))" by (simp add: env_of_def)
  have l0: "lookup ?env_z ''pi'' = Fetched (Some (SqlInt 7, SqlInt 0)) \<and> SqlInt 0 \<noteq> SqlInt 1"
    by (simp add: env_of_def)
  have yes: "\<exists>farm_id. farm_id \<noteq> SqlNull \<and> lookup ?env ''pi'' = Fetched (Some (farm_id, SqlInt 1))"
    unfolding l by simp
  note t = authorization_predicate [OF a, where machine_id = "''pi''" and s = ?s, THEN conjunct1]
  note t0 = authorization_predicate [OF a0, where machine_id = "''pi''" and s = ?s
      and farm_id = "SqlInt 7" and is_active = "SqlInt 0",
      THEN conjunct2, THEN conjunct2, THEN conjunct2, THEN conjunct1, THEN mp, OF l0]
  have "is_sensor_assigned ?env ''pi'' ?s = Inr (True, \<lparr>buffer = [], trace = [DbQuery ''pi'']\<rparr>)"
    using t yes l by (simp add: emit_def)
  moreover have "is_sensor_assigned ?env_z ''pi'' ?s = Inr (False, \<lparr>buffer = [], trace = [DbQuery ''pi'']\<rparr>)"
    using t0 by (simp add: emit_def)
  ultimately show ?thesis by blast
qed

text \<open>
  C7 (no loss while offline). In an iteration where both calls of \<^verbatim>\<open>has_internet\<close>
  find no internet and the sensor returns a reading, no query is made and the reading is
  saved offline: the calls are the read, the offline save and the sleep. Hence after
  \<open>N \<le> MAX_OFFLINE_RECORDS\<close> such iterations in a row, none of them interrupted, the
  loop is still running and the last \<open>N\<close> entries of the offline store are the \<open>N\<close>
  readings, in the order they were read, whatever the store held before.
\<close>

theorem offline_readings_buffered:
  "(has_internet (probe_assign env) = Inr False \<and> has_internet (probe_route env) = Inr False
      \<and> read_data env = Some data
    \<longrightarrow> state_of (cycle machine_id env s) =
          s\<lparr>buffer := append_reading MAX_OFFLINE_RECORDS (buffer s) data,
            trace := trace s @ [ReadData, OfflineSave data, Sleep MEASUREMENT_INTERVAL]\<rparr>
        \<and> cycle_events machine_id env s = [ReadData, OfflineSave data, Sleep MEASUREMENT_INTERVAL]
        \<and> (\<forall>m. DbQuery m \<notin> set (cycle_events machine_id env s)))
   \<and> (list_all2 offline_cycle envs rs \<and> length rs \<le> MAX_OFFLINE_RECORDS
    \<longrightarrow> run machine_id envs s =
          Running (s\<lparr>buffer := append_all MAX_OFFLINE_RECORDS (buffer s) rs,
                     trace := trace s @ concat (map (\<lambda>r. [ReadData, OfflineSave r,
                                                            Sleep MEASUREMENT_INTERVAL]) rs)\<rparr>)
        \<and> drop (length (append_all MAX_OFFLINE_RECORDS (buffer s) rs) - length rs)
             (append_all MAX_OFFLINE_RECORDS (buffer s) rs) = rs)"
proof (intro conjI impI)
  assume h: "has_internet (probe_assign env) = Inr False \<and> has_internet (probe_route env) = Inr False
      \<and> read_data env = Some data"
  have c: "cycle machine_id env s =
           sleep env (s\<lparr>buffer := append_reading MAX_OFFLINE_RECORDS (buffer s) data,
                        trace := trace s @ [ReadData, OfflineSave data]\<rparr>)"
    using h by (intro cycle_offline) simp_all
  show st: "state_of (cycle machine_id env s) =
          s\<lparr>buffer := append_reading MAX_OFFLINE_RECORDS (buffer s) data,
            trace := trace s @ [ReadData, OfflineSave data, Sleep MEASUREMENT_INTERVAL]\<rparr>"
    unfolding c state_of_sleep by (simp add: emit_def)
  show ev: "cycle_events machine_id env s = [ReadData, OfflineSave data, Sleep MEASUREMENT_INTERVAL]"
    unfolding cycle_events_def st by simp
  show "\<forall>m. DbQuery m \<notin> set (cycle_events machine_id env s)"
    unfolding ev by simp
next
  assume h: "list_all2 offline_cycle envs rs \<and> length rs \<le> MAX_OFFLINE_RECORDS"
  show "run machine_id envs s =
          Running (s\<lparr>buffer := append_all MAX_OFFLINE_RECORDS (buffer s) rs,
                     trace := trace s @ concat (map (\<lambda>r. [ReadData, OfflineSave r,
                                                            Sleep MEASUREMENT_INTERVAL]) rs)\<rparr>)"
    using h run_offline by blast
  have "0 < MAX_OFFLINE_RECORDS" by (simp add: MAX_OFFLINE_RECORDS_def)
  then show "drop (length (append_all MAX_OFFLINE_RECORDS (buffer s) rs) - length rs)
             (append_all MAX_OFFLINE_RECORDS (buffer s) rs) = rs"
    using h by (intro append_all_suffix) simp_all
qed

text \<open>Two offline iterations with the readings 1 and 2, from an empty store.\<close>

theorem offline_readings_buffered_witness:
  "run ''pi'' [env_of RaisedURLError DbRaised (Some (1::nat)) RaisedURLError True (\<lambda>i. True),
               env_of RaisedURLError DbRaised (Some 2) RaisedURLError True (\<lambda>i. True)]
      \<lparr>buffer = [], trace = []\<rparr>
   = Running \<lparr>buffer = [1, 2],
              trace = [ReadData, OfflineSave 1, Sleep 300, ReadData, OfflineSave 2, Sleep 300]\<rparr>
   \<and> state_of (cycle ''pi'' (env_of RaisedURLError DbRaised (Some (1::nat)) RaisedURLError True (\<lambda>i. True))
        \<lparr>buffer = [], trace = []\<rparr>)
   = \<lparr>buffer = [1], trace = [ReadData, OfflineSave 1, Sleep 300]\<rparr>"
proof -
  let ?e1 = "env_of RaisedURLError DbRaised (Some (1::nat)) RaisedURLError True (\<lambda>i. True)"
  let ?e2 = "env_of RaisedURLError DbRaised (Some (2::nat)) RaisedURLError True (\<lambda>i. True)"
  let ?s = "\<lparr>buffer = [], trace = []\<rparr> :: nat state"
  have h1: "has_internet (probe_assign ?e1) = Inr False \<and> has_internet (probe_route ?e1) = Inr False
      \<and> read_data ?e1 = Some 1"
    by (simp add: env_of_def has_internet_def INTERNET_TEST_URLS_def)
  have h2: "list_all2 offline_cycle [?e1, ?e2] [1, 2] \<and> length [1::nat, 2] \<le> MAX_OFFLINE_RECORDS"
    by (simp add: offline_cycle_def env_of_def has_internet_def INTERNET_TEST_URLS_def
          MAX_OFFLINE_RECORDS_def)
  note one = offline_readings_buffered [where env = ?e1 and data = 1 and s = ?s
      and machine_id = "''pi''", THEN conjunct1, THEN mp, OF h1, THEN conjunct1]
  note many = offline_readings_buffered [where envs = "[?e1, ?e2]" and rs = "[1, 2]" and s = ?s
      and machine_id = "''pi''", THEN conjunct2, THEN mp, OF h2, THEN conjunct1]
  have "run ''pi'' [?e1, ?e2] ?s
      = Running \<lparr>buffer = [1, 2],
              trace = [ReadData, OfflineSave 1, Sleep 300, ReadData, OfflineSave 2, Sleep 300]\<rparr>"
    unfolding many
    by (simp add: append_reading_def MAX_OFFLINE_RECORDS_def MEASUREMENT_INTERVAL_def)
  moreover have "state_of (cycle ''pi'' ?e1 ?s)
      = \<lparr>buffer = [1], trace = [ReadData, OfflineSave 1, Sleep 300]\<rparr>"
    unfolding one
    by (simp add: append_reading_def MAX_OFFLINE_RECORDS_def MEASUREMENT_INTERVAL_def)
  ultimately show ?thesis by blast
qed

text \<open>
  C9 (bounded buffer, oldest evicted first). For a capacity of at least 1: after an
  append the store holds at most the capacity, and so it does after a clear, a load and
  any sequence of appends to a store within the capacity; after \<open>capacity + K\<close> appends
  with no drain the store holds exactly the last \<open>capacity\<close> readings appended, the
  \<open>K\<close> oldest of them (and everything stored before) evicted. An iteration of \<^verbatim>\<open>run\<close>
  keeps the store within \<open>MAX_OFFLINE_RECORDS\<close>.
\<close>

theorem bounded_buffer:
  assumes "0 < cap"
  shows "length (append_reading cap b r) \<le> cap
       \<and> length (clear b) \<le> cap
       \<and> (length b \<le> cap \<longrightarrow> length (load_all b) \<le> cap \<and> length (append_all cap b rs) \<le> cap)
       \<and> (length b \<le> cap \<and> length rs = cap + K \<longrightarrow> append_all cap b rs = drop K rs)
       \<and> (length (buffer s) \<le> MAX_OFFLINE_RECORDS \<longrightarrow>
            length (buffer (state_of (cycle machine_id env s))) \<le> MAX_OFFLINE_RECORDS)"
proof (intro conjI impI)
  show "length (append_reading cap b r) \<le> cap" using assms by (rule append_reading_length)
  show "length (clear b) \<le> cap" by (simp add: clear_def)
  show "length (load_all b) \<le> cap" if "length b \<le> cap" using that by (simp add: load_all_def)
  show "length (append_all cap b rs) \<le> cap" if "length b \<le> cap"
    using assms that by (rule append_all_length)
  show "append_all cap b rs = drop K rs" if "length b \<le> cap \<and> length rs = cap + K"
    using assms that by (intro append_all_recent) simp_all
  show "length (buffer (state_of (cycle machine_id env s))) \<le> MAX_OFFLINE_RECORDS"
    if "length (buffer s) \<le> MAX_OFFLINE_RECORDS"
    using that by (rule cycle_buffer_bound)
qed

text \<open>Capacity 3 and the readings 1 to 4: the reading 1 is evicted.\<close>

theorem bounded_buffer_witness:
  "append_all 3 [] [1, 2, 3, 4::nat] = [2, 3, 4]
   \<and> length (append_reading 3 [1, 2, 3::nat] 4) \<le> 3"
proof -
  have c: "(0::nat) < 3" by simp
  have h: "length ([]::nat list) \<le> 3 \<and> length [1, 2, 3, 4::nat] = 3 + 1" by simp
  note inst = bounded_buffer [OF c, where b = "[1, 2, 3::nat]" and r = 4]
  note recent = bounded_buffer [OF c, where b = "[]::nat list" and rs = "[1, 2, 3, 4]" and K = 1,
      THEN conjunct2, THEN conjunct2, THEN conjunct2, THEN conjunct1, THEN mp, OF h]
  have "append_all 3 [] [1, 2, 3, 4::nat] = [2, 3, 4]" unfolding recent by simp
  then show ?thesis using inst [THEN conjunct1] by blast
qed

end
